theory Spec2Isabelle
  imports Complex_Main
begin

section \<open>Values of the JavaScript program\<close>

text \<open>
  A JavaScript number is either a finite value, one of the two infinities, or NaN.  The
  pipeline never computes with landmark coordinates: it copies them and classifies them
  with \<open>isNaN\<close> and \<open>isFinite\<close>.  The finite values are therefore carried as reals (every
  finite double is one), and rounding plays no part.
\<close>

datatype jsnum = Num real | PosInfinity | NegInfinity | NaN

text \<open>
  The values \<open>validateSequence\<close> may be handed: \<open>undefined\<close>, \<open>null\<close>, booleans,
  numbers, (dense) arrays and plain objects.  Strings, symbols, BigInts and objects with a
  conversion method of their own are outside this datatype.
\<close>

datatype jsval =
    JUndefined
  | JNull
  | JBool bool
  | JNum jsnum
  | JArr "jsval list"
  | JObj

datatype error = TypeError

text \<open>One feature vector, and a sequence of them.\<close>

type_synonym frame = "jsnum list"

section \<open>Configuration (js/config.js)\<close>

definition N_FRAMES :: nat where
  "N_FRAMES = 30"

definition PREDICTION_THROTTLE_MS :: int where
  "PREDICTION_THROTTLE_MS = 400"

definition POSE_INDICES :: "nat list" where
  "POSE_INDICES = [11, 12, 13, 14, 15, 16]"

section \<open>Detection results and the manager state\<close>

text \<open>
  A landmark is an object with the fields \<open>x\<close>, \<open>y\<close> and \<open>z\<close>.  A landmark set is an
  array whose entries are landmarks or \<open>null\<close>/\<open>undefined\<close> (\<open>None\<close>); each of the three
  sets of a detection result is itself present or absent.
\<close>

record landmark =
  lm_x :: jsnum
  lm_y :: jsnum
  lm_z :: jsnum

record results =
  poseLandmarks :: "landmark option list option"
  leftHandLandmarks :: "landmark option list option"
  rightHandLandmarks :: "landmark option list option"

record detected =
  leftHand :: nat
  rightHand :: nat
  pose :: nat

text \<open>
  The fields of \<open>MediaPipeManager\<close> that the pipeline reads or writes.  The video element,
  the canvas and the detector handle are external collaborators; \<open>onPredictionReady\<close>
  records whether a prediction callback has been set.
\<close>

record manager =
  capturing :: bool
  frameCounter :: nat
  keypointSequence :: "frame list"
  lastPredictionTime :: int
  onPredictionReady :: bool
  framesProcessed :: nat
  predictionsAttempted :: nat
  landmarksDetected :: detected

definition constructor :: manager where
  "constructor =
     \<lparr> capturing = False, frameCounter = 0, keypointSequence = [],
       lastPredictionTime = 0, onPredictionReady = False,
       framesProcessed = 0, predictionsAttempted = 0,
       landmarksDetected = \<lparr> leftHand = 0, rightHand = 0, pose = 0 \<rparr> \<rparr>"

definition setPredictionCallback :: "manager \<Rightarrow> manager" where
  "setPredictionCallback s = s\<lparr>onPredictionReady := True\<rparr>"

section \<open>extractKeypoints\<close>

datatype handName = LeftHandName | RightHandName

definition zeros :: "nat \<Rightarrow> frame" where
  "zeros n = replicate n (Num 0)"

text \<open>
  \<open>landmarks.flatMap(landmark => [landmark.x, landmark.y, landmark.z])\<close>: reading a
  property of a \<open>null\<close> or \<open>undefined\<close> entry throws a TypeError.
\<close>

fun flatMap_xyz :: "landmark option list \<Rightarrow> error + frame" where
  "flatMap_xyz [] = Inr []"
| "flatMap_xyz (None # ls) = Inl TypeError"
| "flatMap_xyz (Some lm # ls) =
     (case flatMap_xyz ls of
        Inl e \<Rightarrow> Inl e
      | Inr vs \<Rightarrow> Inr (lm_x lm # lm_y lm # lm_z lm # vs))"

definition set_detected :: "handName \<Rightarrow> nat \<Rightarrow> detected \<Rightarrow> detected" where
  "set_detected h n d =
     (case h of LeftHandName \<Rightarrow> d\<lparr>leftHand := n\<rparr> | RightHandName \<Rightarrow> d\<lparr>rightHand := n\<rparr>)"

text \<open>
  The inner function \<open>extractLandmarks(landmarks, count, handName)\<close>.  The counter is
  written before the landmarks are flattened, so it is written even when flattening
  throws.
\<close>

definition extractLandmarks ::
  "manager \<Rightarrow> landmark option list option \<Rightarrow> nat \<Rightarrow> handName \<Rightarrow> manager \<times> (error + frame)"
where
  "extractLandmarks s landmarks count h =
     (case landmarks of
        None \<Rightarrow> (s, Inr (zeros (count * 3)))
      | Some ls \<Rightarrow>
          if length ls = 0 then (s, Inr (zeros (count * 3)))
          else (s\<lparr>landmarksDetected := set_detected h (length ls) (landmarksDetected s)\<rparr>,
                flatMap_xyz ls))"

text \<open>
  \<open>results.poseLandmarks && results.poseLandmarks[index]\<close>: the landmark at \<open>index\<close>,
  when the pose set is present, long enough, and holds an object there.
\<close>

definition pose_at :: "results \<Rightarrow> nat \<Rightarrow> landmark option" where
  "pose_at r i =
     (case poseLandmarks r of
        None \<Rightarrow> None
      | Some ls \<Rightarrow> if i < length ls then ls ! i else None)"

text \<open>The body of \<open>CONFIG.POSE_INDICES.forEach\<close>, on the pair (counter, poseCoords).\<close>

fun pose_loop :: "results \<Rightarrow> nat list \<Rightarrow> nat \<times> frame \<Rightarrow> nat \<times> frame" where
  "pose_loop r [] acc = acc"
| "pose_loop r (i # is) (n, poseCoords) =
     (case pose_at r i of
        Some lm \<Rightarrow> pose_loop r is (n + 1, poseCoords @ [lm_x lm, lm_y lm, lm_z lm])
      | None \<Rightarrow> pose_loop r is (n, poseCoords @ [Num 0, Num 0, Num 0]))"

text \<open>
  \<open>extractKeypoints(results)\<close>.  The debug counters are reset, the six pose joints are
  read, then the left and the right hand; the console output is not modelled.
\<close>

definition extractKeypoints :: "manager \<Rightarrow> results \<Rightarrow> manager \<times> (error + frame)" where
  "extractKeypoints s r =
     (let s0 = s\<lparr>landmarksDetected := \<lparr> leftHand = 0, rightHand = 0, pose = 0 \<rparr>\<rparr>;
          (n, poseCoords) = pose_loop r POSE_INDICES (0, []);
          s1 = s0\<lparr>landmarksDetected := (landmarksDetected s0)\<lparr>pose := n\<rparr>\<rparr>;
          (s2, left) = extractLandmarks s1 (leftHandLandmarks r) 21 LeftHandName
      in case left of
           Inl e \<Rightarrow> (s2, Inl e)
         | Inr leftHandCoords \<Rightarrow>
             (let (s3, right) = extractLandmarks s2 (rightHandLandmarks r) 21 RightHandName
              in case right of
                   Inl e \<Rightarrow> (s3, Inl e)
                 | Inr rightHandCoords \<Rightarrow>
                     (s3, Inr (leftHandCoords @ rightHandCoords @ poseCoords))))"

section \<open>The detection callback\<close>

text \<open>\<open>xs.slice(-n)\<close>: the last \<open>n\<close> elements, or all of them when there are fewer.\<close>

definition slice_last :: "nat \<Rightarrow> 'a list \<Rightarrow> 'a list" where
  "slice_last n xs = drop (length xs - n) xs"

text \<open>
  What one call of \<open>onResults\<close> does towards the outside: it throws, or the gate stays
  closed, or the gate fires and the snapshot is passed to the prediction callback
  (\<open>Predict\<close>), or the gate fires with no callback set.
\<close>

datatype outcome = Raised error | NotFired | FiredNoCallback | Predict "frame list"

definition fired :: "outcome \<Rightarrow> bool" where
  "fired out = (case out of Predict q \<Rightarrow> True | FiredNoCallback \<Rightarrow> True | _ \<Rightarrow> False)"

text \<open>
  \<open>onResults(results)\<close>, with the value of \<open>Date.now()\<close> (integer milliseconds) as the
  argument \<open>now\<close>.  Drawing on the canvas is not modelled.
\<close>

definition onResults :: "manager \<Rightarrow> results \<Rightarrow> int \<Rightarrow> manager \<times> outcome" where
  "onResults s r now =
     (let s1 = s\<lparr>framesProcessed := framesProcessed s + 1\<rparr>;
          (s2, keypoints) = extractKeypoints s1 r
      in case keypoints of
           Inl e \<Rightarrow> (s2, Raised e)
         | Inr kp \<Rightarrow>
             (let s3 = s2\<lparr>keypointSequence := keypointSequence s2 @ [kp]\<rparr>
              in if length (keypointSequence s3) \<ge> N_FRAMES \<and>
                    now - lastPredictionTime s3 > PREDICTION_THROTTLE_MS
                 then
                   (let s4 = s3\<lparr>predictionsAttempted := predictionsAttempted s3 + 1,
                                 lastPredictionTime := now\<rparr>;
                        sequenceToPredict = keypointSequence s4;
                        s5 = s4\<lparr>keypointSequence := slice_last 10 (keypointSequence s4)\<rparr>
                    in (s5, if onPredictionReady s5 then Predict sequenceToPredict
                            else FiredNoCallback))
                 else (s3, NotFired)))"

text \<open>
  The condition of the \<open>if\<close> in \<open>onResults\<close>, in terms of the state before the call:
  the buffer length is read after the push.
\<close>

definition gate :: "manager \<Rightarrow> int \<Rightarrow> bool" where
  "gate s now = (N_FRAMES \<le> length (keypointSequence s) + 1 \<and>
                 now - lastPredictionTime s > PREDICTION_THROTTLE_MS)"

section \<open>Starting and stopping capture\<close>

text \<open>
  \<open>startCapture()\<close> up to the point where it returns its promise.  The argument says
  whether \<open>getUserMedia\<close> delivered a stream.
\<close>

datatype started = AlreadyCapturing | CameraAccessError | Started

definition startCapture :: "manager \<Rightarrow> bool \<Rightarrow> manager \<times> started" where
  "startCapture s granted =
     (if capturing s then (s, AlreadyCapturing)
      else if \<not> granted then (s, CameraAccessError)
      else (s\<lparr>capturing := True, keypointSequence := [], frameCounter := 0,
              framesProcessed := 0, predictionsAttempted := 0\<rparr>, Started))"

definition stopCapture :: "manager \<Rightarrow> manager" where
  "stopCapture s = (if capturing s then s\<lparr>capturing := False\<rparr> else s)"

text \<open>
  \<open>processVideoFrame()\<close>: the Boolean says whether the frame was sent to the detector.
\<close>

definition processVideoFrame :: "manager \<Rightarrow> manager \<times> bool" where
  "processVideoFrame s =
     (if \<not> capturing s then (s, False)
      else (s\<lparr>frameCounter := frameCounter s + 1\<rparr>, True))"

section \<open>Runs of the manager\<close>

text \<open>
  The events that reach the manager: a call of \<open>startCapture\<close>, a call of
  \<open>stopCapture\<close>, an animation frame, and a detection callback with its clock reading.
  A run collects, for each detection callback, the clock reading and the outcome.
\<close>

datatype event =
    StartCapture bool
  | StopCapture
  | VideoFrame
  | Results results int

fun step :: "manager \<Rightarrow> event \<Rightarrow> manager \<times> (int \<times> outcome) list" where
  "step s (StartCapture granted) = (fst (startCapture s granted), [])"
| "step s StopCapture = (stopCapture s, [])"
| "step s VideoFrame = (fst (processVideoFrame s), [])"
| "step s (Results r now) = (fst (onResults s r now), [(now, snd (onResults s r now))])"

fun run :: "manager \<Rightarrow> event list \<Rightarrow> manager \<times> (int \<times> outcome) list" where
  "run s [] = (s, [])"
| "run s (e # es) =
     (let (s1, log1) = step s e; (s2, log2) = run s1 es in (s2, log1 @ log2))"

definition fire_times :: "(int \<times> outcome) list \<Rightarrow> int list" where
  "fire_times entries = map fst (filter (\<lambda>p. fired (snd p)) entries)"

section \<open>validateSequence\<close>

text \<open>
  \<open>ToNumber\<close> on the modelled values.  An array converts through its string form: the
  empty array gives 0, a one-element array gives what its element's string form gives,
  and a longer one contains a comma and gives NaN.
\<close>

fun ToNumber :: "jsval \<Rightarrow> jsnum" where
  "ToNumber JUndefined = NaN"
| "ToNumber JNull = Num 0"
| "ToNumber (JBool b) = Num (if b then 1 else 0)"
| "ToNumber (JNum n) = n"
| "ToNumber JObj = NaN"
| "ToNumber (JArr []) = Num 0"
| "ToNumber (JArr [v]) =
     (case v of
        JUndefined \<Rightarrow> Num 0
      | JNull \<Rightarrow> Num 0
      | JBool b \<Rightarrow> NaN
      | JNum n \<Rightarrow> n
      | JObj \<Rightarrow> NaN
      | JArr vs \<Rightarrow> ToNumber (JArr vs))"
| "ToNumber (JArr (v # w # vs)) = NaN"

definition isNaN :: "jsval \<Rightarrow> bool" where
  "isNaN v = (ToNumber v = NaN)"

definition isFinite :: "jsval \<Rightarrow> bool" where
  "isFinite v = (case ToNumber v of Num x \<Rightarrow> True | _ \<Rightarrow> False)"

text \<open>
  The \<open>for\<close> loop of \<open>validateSequence\<close>.  A frame that is not an array enters the
  mismatch branch, whose message reads \<open>frame.length\<close>: on \<open>null\<close> and \<open>undefined\<close> that
  read throws.
\<close>

fun validate_frames :: "jsval list \<Rightarrow> error + bool" where
  "validate_frames [] = Inr True"
| "validate_frames (f # fs) =
     (case f of
        JArr vals \<Rightarrow>
          if length vals \<noteq> 144 then Inr False
          else if list_ex (\<lambda>val. isNaN val \<or> \<not> isFinite val) vals then Inr False
          else validate_frames fs
      | JUndefined \<Rightarrow> Inl TypeError
      | JNull \<Rightarrow> Inl TypeError
      | _ \<Rightarrow> Inr False)"

definition validateSequence :: "jsval \<Rightarrow> error + bool" where
  "validateSequence sequence =
     (case sequence of
        JArr frames \<Rightarrow>
          if length frames \<noteq> N_FRAMES then Inr False else validate_frames frames
      | _ \<Rightarrow> Inr False)"

text \<open>A sequence of feature vectors as the JavaScript value it is.\<close>

definition js_frame :: "frame \<Rightarrow> jsval" where
  "js_frame f = JArr (map JNum f)"

definition js_sequence :: "frame list \<Rightarrow> jsval" where
  "js_sequence q = JArr (map js_frame q)"

section \<open>The earlier copy of the class\<close>

text \<open>
  The file holds two copies of \<open>MediaPipeManager\<close>.  The definitions above follow the
  later one (with the debug counters, \<open>validateSequence\<close> and the retained tail).  The
  earlier copy differs in \<open>extractKeypoints\<close>, which writes nothing and does not test
  for an empty hand set; in \<open>onResults\<close>, which clears the buffer on a flush; in
  \<open>stopCapture\<close>, which clears the flag unconditionally; and in
  \<open>processVideoFrame\<close>, which sends every fourth frame only.
\<close>

definition extract_v1 :: "landmark option list option \<Rightarrow> nat \<Rightarrow> error + frame" where
  "extract_v1 landmarks num =
     (case landmarks of
        None \<Rightarrow> Inr (zeros (num * 3))
      | Some ls \<Rightarrow> flatMap_xyz ls)"

definition extractKeypoints_v1 :: "results \<Rightarrow> error + frame" where
  "extractKeypoints_v1 r =
     (let poseCoords = snd (pose_loop r POSE_INDICES (0, []))
      in case extract_v1 (leftHandLandmarks r) 21 of
           Inl e \<Rightarrow> Inl e
         | Inr leftHandCoords \<Rightarrow>
             (case extract_v1 (rightHandLandmarks r) 21 of
                Inl e \<Rightarrow> Inl e
              | Inr rightHandCoords \<Rightarrow>
                  Inr (leftHandCoords @ rightHandCoords @ poseCoords)))"

definition onResults_v1 :: "manager \<Rightarrow> results \<Rightarrow> int \<Rightarrow> manager \<times> outcome" where
  "onResults_v1 s r now =
     (case extractKeypoints_v1 r of
        Inl e \<Rightarrow> (s, Raised e)
      | Inr kp \<Rightarrow>
          (let s1 = s\<lparr>keypointSequence := keypointSequence s @ [kp]\<rparr>
           in if length (keypointSequence s1) \<ge> N_FRAMES \<and>
                 now - lastPredictionTime s1 > PREDICTION_THROTTLE_MS
              then
                (let s2 = s1\<lparr>lastPredictionTime := now\<rparr>;
                     sequenceToPredict = keypointSequence s2;
                     s3 = s2\<lparr>keypointSequence := []\<rparr>
                 in (s3, if onPredictionReady s3 then Predict sequenceToPredict
                         else FiredNoCallback))
              else (s1, NotFired)))"

text \<open>\<open>FRAME_SKIP\<close> of js/config.js, and the capture methods of the earlier copy.\<close>

definition FRAME_SKIP :: nat where
  "FRAME_SKIP = 4"

definition startCapture_v1 :: "manager \<Rightarrow> bool \<Rightarrow> manager \<times> started" where
  "startCapture_v1 s granted =
     (if capturing s then (s, AlreadyCapturing)
      else if \<not> granted then (s, CameraAccessError)
      else (s\<lparr>capturing := True, keypointSequence := [], frameCounter := 0\<rparr>, Started))"

definition stopCapture_v1 :: "manager \<Rightarrow> manager" where
  "stopCapture_v1 s = s\<lparr>capturing := False\<rparr>"

definition processVideoFrame_v1 :: "manager \<Rightarrow> manager \<times> bool" where
  "processVideoFrame_v1 s =
     (if \<not> capturing s then (s, False)
      else (let s1 = s\<lparr>frameCounter := frameCounter s + 1\<rparr>
            in (s1, frameCounter s1 mod FRAME_SKIP = 0)))"

text \<open>Runs of the earlier copy, over the same events.\<close>

fun step_v1 :: "manager \<Rightarrow> event \<Rightarrow> manager \<times> (int \<times> outcome) list" where
  "step_v1 s (StartCapture granted) = (fst (startCapture_v1 s granted), [])"
| "step_v1 s StopCapture = (stopCapture_v1 s, [])"
| "step_v1 s VideoFrame = (fst (processVideoFrame_v1 s), [])"
| "step_v1 s (Results r now) =
     (fst (onResults_v1 s r now), [(now, snd (onResults_v1 s r now))])"

fun run_v1 :: "manager \<Rightarrow> event list \<Rightarrow> manager \<times> (int \<times> outcome) list" where
  "run_v1 s [] = (s, [])"
| "run_v1 s (e # es) =
     (let (s1, log1) = step_v1 s e; (s2, log2) = run_v1 s1 es in (s2, log1 @ log2))"

section \<open>The way to the socket\<close>

text \<open>
  The prediction callback installed by the application is
  \<open>TranslationManager.handleSequenceReady\<close>, which passes the sequence and the sign
  history to \<open>WebSocketManager.predictSequence\<close>.  Of the socket manager, the model
  keeps whether a socket exists and whether it is connected; the status texts shown to
  the user are not modelled.
\<close>

record webSocketManager =
  socket :: bool
  isConnected :: bool

datatype emitted = predict_sequence "frame list" "string list"

definition predictSequence ::
  "webSocketManager \<Rightarrow> frame list \<Rightarrow> string list \<Rightarrow> emitted option \<times> bool"
where
  "predictSequence w sequence history =
     (if socket w \<and> isConnected w then (Some (predict_sequence sequence history), True)
      else (None, False))"

definition handleSequenceReady ::
  "webSocketManager \<Rightarrow> string list \<Rightarrow> frame list \<Rightarrow> emitted option"
where
  "handleSequenceReady w signHistory sequence =
     (if isConnected w then fst (predictSequence w sequence signHistory) else None)"

section \<open>A concrete session\<close>

text \<open>
  A detection result with no landmark set at all, a clock reading, and three event
  lists: 29 callbacks after a successful start; the 30th callback followed by 21 more
  within 300 ms; and one further callback after the throttle interval.
\<close>

definition absent_results :: results where
  "absent_results =
     \<lparr> poseLandmarks = None, leftHandLandmarks = None, rightHandLandmarks = None \<rparr>"

definition clock0 :: int where
  "clock0 = 1700000000000"

definition first_window :: "event list" where
  "first_window = StartCapture True # replicate 29 (Results absent_results clock0)"

definition fast_session :: "event list" where
  "fast_session =
     first_window @ [Results absent_results clock0] @
     replicate 21 (Results absent_results (clock0 + 300))"

text \<open>
  Detection results with landmarks: a left hand of 20 landmarks only; a pose of 33
  landmarks and no hands; and a full detection (33 pose landmarks, 21 per hand).
\<close>

definition mid_landmark :: landmark where
  "mid_landmark = \<lparr> lm_x = Num 0.5, lm_y = Num 0.5, lm_z = Num 0 \<rparr>"

definition short_hand_results :: results where
  "short_hand_results =
     \<lparr> poseLandmarks = None,
       leftHandLandmarks = Some (replicate 20 (Some mid_landmark)),
       rightHandLandmarks = None \<rparr>"

definition pose_only_results :: results where
  "pose_only_results =
     \<lparr> poseLandmarks = Some (replicate 33 (Some mid_landmark)),
       leftHandLandmarks = None,
       rightHandLandmarks = None \<rparr>"

definition full_results :: results where
  "full_results =
     \<lparr> poseLandmarks = Some (replicate 33 (Some mid_landmark)),
       leftHandLandmarks = Some (replicate 21 (Some mid_landmark)),
       rightHandLandmarks = Some (replicate 21 (Some mid_landmark)) \<rparr>"

text \<open>
  A session stopped after one submitted frame, and a session abandoned with 12 vectors
  in the buffer.
\<close>

definition stopped_session :: "event list" where
  "stopped_session = [StartCapture True, VideoFrame, StopCapture]"

definition abandoned_session :: "event list" where
  "abandoned_session =
     StartCapture True # replicate 12 (Results absent_results clock0) @ [StopCapture]"

section \<open>What extractKeypoints and onResults change\<close>

lemma extractKeypoints_snd: "snd (extractKeypoints s r) = snd (extractKeypoints s' r)"
  by (auto simp: extractKeypoints_def Let_def extractLandmarks_def
           split: prod.splits sum.splits option.splits)

lemma extractKeypoints_fst:
  "fst (extractKeypoints s r) = s\<lparr>landmarksDetected := landmarksDetected (fst (extractKeypoints s r))\<rparr>"
  by (auto simp: extractKeypoints_def Let_def extractLandmarks_def
           split: prod.splits sum.splits option.splits)

lemma extract_keeps:
  "keypointSequence (fst (extractKeypoints s r)) = keypointSequence s"
  "lastPredictionTime (fst (extractKeypoints s r)) = lastPredictionTime s"
  "onPredictionReady (fst (extractKeypoints s r)) = onPredictionReady s"
  "capturing (fst (extractKeypoints s r)) = capturing s"
  "frameCounter (fst (extractKeypoints s r)) = frameCounter s"
  "framesProcessed (fst (extractKeypoints s r)) = framesProcessed s"
  "predictionsAttempted (fst (extractKeypoints s r)) = predictionsAttempted s"
proof -
  obtain d where "fst (extractKeypoints s r) = s\<lparr>landmarksDetected := d\<rparr>"
    using extractKeypoints_fst by blast
  then show
    "keypointSequence (fst (extractKeypoints s r)) = keypointSequence s"
    "lastPredictionTime (fst (extractKeypoints s r)) = lastPredictionTime s"
    "onPredictionReady (fst (extractKeypoints s r)) = onPredictionReady s"
    "capturing (fst (extractKeypoints s r)) = capturing s"
    "frameCounter (fst (extractKeypoints s r)) = frameCounter s"
    "framesProcessed (fst (extractKeypoints s r)) = framesProcessed s"
    "predictionsAttempted (fst (extractKeypoints s r)) = predictionsAttempted s"
    by simp_all
qed

lemma onResults_raised:
  assumes "snd (extractKeypoints s r) = Inl e"
  shows "snd (onResults s r now) = Raised e"
    and "keypointSequence (fst (onResults s r now)) = keypointSequence s"
    and "lastPredictionTime (fst (onResults s r now)) = lastPredictionTime s"
proof -
  let ?s1 = "s\<lparr>framesProcessed := framesProcessed s + 1\<rparr>"
  obtain s2 k where e: "extractKeypoints ?s1 r = (s2, k)"
    by (cases "extractKeypoints ?s1 r")
  have k: "k = Inl e"
    using e assms extractKeypoints_snd [of ?s1 r s] by simp
  have s2: "keypointSequence s2 = keypointSequence s" "lastPredictionTime s2 = lastPredictionTime s"
    using e extract_keeps(1,2) [of ?s1 r] by simp_all
  show "snd (onResults s r now) = Raised e"
    and "keypointSequence (fst (onResults s r now)) = keypointSequence s"
    and "lastPredictionTime (fst (onResults s r now)) = lastPredictionTime s"
    unfolding onResults_def Let_def e k by (simp_all add: s2)
qed

lemma onResults_ok:
  assumes "snd (extractKeypoints s r) = Inr kp"
  shows "snd (onResults s r now) =
           (if gate s now
            then (if onPredictionReady s then Predict (keypointSequence s @ [kp])
                  else FiredNoCallback)
            else NotFired)"
    and "keypointSequence (fst (onResults s r now)) =
           (if gate s now then slice_last 10 (keypointSequence s @ [kp])
            else keypointSequence s @ [kp])"
    and "lastPredictionTime (fst (onResults s r now)) =
           (if gate s now then now else lastPredictionTime s)"
proof -
  let ?s1 = "s\<lparr>framesProcessed := framesProcessed s + 1\<rparr>"
  obtain s2 k where e: "extractKeypoints ?s1 r = (s2, k)"
    by (cases "extractKeypoints ?s1 r")
  have k: "k = Inr kp"
    using e assms extractKeypoints_snd [of ?s1 r s] by simp
  have s2: "keypointSequence s2 = keypointSequence s"
    "lastPredictionTime s2 = lastPredictionTime s"
    "onPredictionReady s2 = onPredictionReady s"
    using e extract_keeps(1,2,3) [of ?s1 r] by simp_all
  show "snd (onResults s r now) =
           (if gate s now
            then (if onPredictionReady s then Predict (keypointSequence s @ [kp])
                  else FiredNoCallback)
            else NotFired)"
    and "keypointSequence (fst (onResults s r now)) =
           (if gate s now then slice_last 10 (keypointSequence s @ [kp])
            else keypointSequence s @ [kp])"
    and "lastPredictionTime (fst (onResults s r now)) =
           (if gate s now then now else lastPredictionTime s)"
    unfolding onResults_def Let_def e k by (simp_all add: s2 gate_def)
qed

lemma onResults_keeps:
  "onPredictionReady (fst (onResults s r now)) = onPredictionReady s"
  "capturing (fst (onResults s r now)) = capturing s"
proof -
  let ?s1 = "s\<lparr>framesProcessed := framesProcessed s + 1\<rparr>"
  obtain s2 k where e: "extractKeypoints ?s1 r = (s2, k)"
    by (cases "extractKeypoints ?s1 r")
  have s2: "onPredictionReady s2 = onPredictionReady s" "capturing s2 = capturing s"
    using e extract_keeps(3,4) [of ?s1 r] by simp_all
  show "onPredictionReady (fst (onResults s r now)) = onPredictionReady s"
    "capturing (fst (onResults s r now)) = capturing s"
    unfolding onResults_def Let_def e by (simp_all add: s2 split: sum.splits)
qed

lemma fired_iff_gate:
  "fired (snd (onResults s r now)) =
     (gate s now \<and> (\<exists>kp. snd (extractKeypoints s r) = Inr kp))"
proof (cases "snd (extractKeypoints s r)")
  case (Inl e)
  then show ?thesis by (simp add: onResults_raised(1) fired_def)
next
  case (Inr kp)
  then show ?thesis by (simp add: onResults_ok(1) fired_def)
qed

lemma lastPredictionTime_onResults:
  "lastPredictionTime (fst (onResults s r now)) =
     (if fired (snd (onResults s r now)) then now else lastPredictionTime s)"
proof (cases "snd (extractKeypoints s r)")
  case (Inl e)
  then show ?thesis by (simp add: onResults_raised fired_def)
next
  case (Inr kp)
  then show ?thesis by (simp add: onResults_ok fired_def)
qed

lemma extractKeypoints_capturing:
  "extractKeypoints (s\<lparr>capturing := c\<rparr>) r =
     ((fst (extractKeypoints s r))\<lparr>capturing := c\<rparr>, snd (extractKeypoints s r))"
  by (auto simp: extractKeypoints_def Let_def extractLandmarks_def
           split: prod.splits sum.splits option.splits)

lemma onResults_capturing:
  "onResults (s\<lparr>capturing := c\<rparr>) r now =
     ((fst (onResults s r now))\<lparr>capturing := c\<rparr>, snd (onResults s r now))"
proof -
  let ?s1 = "s\<lparr>framesProcessed := framesProcessed s + 1\<rparr>"
  obtain s2 k where e: "extractKeypoints ?s1 r = (s2, k)"
    by (cases "extractKeypoints ?s1 r")
  have eq: "s\<lparr>capturing := c, framesProcessed := framesProcessed (s\<lparr>capturing := c\<rparr>) + 1\<rparr> =
      ?s1\<lparr>capturing := c\<rparr>"
    by simp
  have e': "extractKeypoints
      (s\<lparr>capturing := c, framesProcessed := framesProcessed (s\<lparr>capturing := c\<rparr>) + 1\<rparr>) r =
      (s2\<lparr>capturing := c\<rparr>, k)"
    by (simp only: eq extractKeypoints_capturing e fst_conv snd_conv)
  show ?thesis
    unfolding onResults_def Let_def e e'
    by (auto split: sum.splits)
qed

lemma slice_last_suffix:
  "\<exists>front. xs = front @ slice_last n xs"
  unfolding slice_last_def by (metis append_take_drop_id)

lemma slice_last_length: "n \<le> length xs \<Longrightarrow> length (slice_last n xs) = n"
  by (simp add: slice_last_def)

section \<open>The values extractKeypoints returns\<close>

lemma zeros_append: "zeros m @ zeros n = zeros (m + n)"
  by (simp add: zeros_def replicate_add)

lemma flatMap_xyz_ok:
  "None \<notin> set ls \<Longrightarrow> \<exists>vs. flatMap_xyz ls = Inr vs \<and> length vs = 3 * length ls"
proof (induction ls)
  case Nil
  show ?case by simp
next
  case (Cons a ls)
  then obtain lm where a: "a = Some lm" by (cases a) auto
  from Cons obtain vs where "flatMap_xyz ls = Inr vs" "length vs = 3 * length ls"
    by auto
  then show ?case by (simp add: a)
qed

lemma flatMap_xyz_nth:
  "flatMap_xyz ls = Inr vs \<Longrightarrow> i < length ls \<Longrightarrow>
   \<exists>lm. ls ! i = Some lm \<and> take 3 (drop (3 * i) vs) = [lm_x lm, lm_y lm, lm_z lm]"
proof (induction ls arbitrary: vs i)
  case Nil
  then show ?case by simp
next
  case (Cons a ls)
  from Cons.prems(1) obtain lm ws where a: "a = Some lm" and ws: "flatMap_xyz ls = Inr ws"
    and vs: "vs = lm_x lm # lm_y lm # lm_z lm # ws"
    by (cases a) (auto split: sum.splits)
  show ?case
  proof (cases i)
    case 0
    then show ?thesis by (simp add: a vs)
  next
    case (Suc j)
    then have "j < length ls" using Cons.prems(2) by simp
    from Cons.IH [OF ws this] obtain lm' where
      "ls ! j = Some lm'" "take 3 (drop (3 * j) ws) = [lm_x lm', lm_y lm', lm_z lm']"
      by blast
    moreover have "3 * i = Suc (Suc (Suc (3 * j)))"
      using Suc by simp
    ultimately show ?thesis
      by (simp add: Suc vs del: mult_Suc_right)
  qed
qed

lemma flatMap_xyz_replicate:
  "flatMap_xyz (replicate n (Some lm)) = Inr (concat (replicate n [lm_x lm, lm_y lm, lm_z lm]))"
  by (induction n) simp_all

lemma flatMap_xyz_null: "None \<in> set ls \<Longrightarrow> flatMap_xyz ls = Inl TypeError"
proof (induction ls)
  case Nil
  then show ?case by simp
next
  case (Cons a ls)
  then show ?case by (cases a) auto
qed

lemma pose_loop_eq:
  "pose_loop r js (n, acc) =
     (n + length (filter (\<lambda>i. pose_at r i \<noteq> None) js),
      acc @ concat (map (\<lambda>i. case pose_at r i of
                                 Some lm \<Rightarrow> [lm_x lm, lm_y lm, lm_z lm]
                               | None \<Rightarrow> [Num 0, Num 0, Num 0]) js))"
  by (induction js arbitrary: n acc) (auto split: option.splits)

lemma pose_coords:
  assumes "pose_loop r POSE_INDICES (0, []) = (n, p)"
  shows "length p = 18"
    and "k < 6 \<Longrightarrow> take 3 (drop (3 * k) p) =
           (case pose_at r (POSE_INDICES ! k) of
              Some lm \<Rightarrow> [lm_x lm, lm_y lm, lm_z lm]
            | None \<Rightarrow> zeros 3)"
proof -
  let ?t = "\<lambda>i. case pose_at r i of
                   Some lm \<Rightarrow> [lm_x lm, lm_y lm, lm_z lm]
                 | None \<Rightarrow> [Num 0, Num 0, Num 0]"
  have p: "p = ?t 11 @ ?t 12 @ ?t 13 @ ?t 14 @ ?t 15 @ ?t 16"
    using assms by (simp add: pose_loop_eq POSE_INDICES_def)
  have len: "length (?t i) = 3" for i
    by (simp split: option.splits)
  show "length p = 18"
    by (simp add: p len)
  have z: "zeros 3 = [Num 0, Num 0, Num 0]"
    by (simp add: zeros_def eval_nat_numeral)
  show "take 3 (drop (3 * k) p) =
           (case pose_at r (POSE_INDICES ! k) of
              Some lm \<Rightarrow> [lm_x lm, lm_y lm, lm_z lm]
            | None \<Rightarrow> zeros 3)" if "k < 6"
  proof -
    from that consider "k = 0" | "k = 1" | "k = 2" | "k = 3" | "k = 4" | "k = 5"
      by linarith
    then show ?thesis
      by cases (simp_all add: p len POSE_INDICES_def z split: option.splits)
  qed
qed

lemma extractLandmarks_value:
  "snd (extractLandmarks s h c n) =
     (case h of
        None \<Rightarrow> Inr (zeros (c * 3))
      | Some ls \<Rightarrow> if ls = [] then Inr (zeros (c * 3)) else flatMap_xyz ls)"
  by (simp add: extractLandmarks_def split: option.splits)

lemma extractKeypoints_value:
  "snd (extractKeypoints s r) =
     (case snd (extractLandmarks s (leftHandLandmarks r) 21 LeftHandName) of
        Inl e \<Rightarrow> Inl e
      | Inr l \<Rightarrow>
          (case snd (extractLandmarks s (rightHandLandmarks r) 21 RightHandName) of
             Inl e \<Rightarrow> Inl e
           | Inr rt \<Rightarrow> Inr (l @ rt @ snd (pose_loop r POSE_INDICES (0, [])))))"
  by (auto simp: extractKeypoints_def Let_def extractLandmarks_def
           split: prod.splits sum.splits option.splits)

lemma hand_coords:
  assumes "\<forall>ls. h = Some ls \<longrightarrow> None \<notin> set ls"
  shows "\<exists>vs. snd (extractLandmarks s h 21 n) = Inr vs \<and>
           length vs = 3 * (case h of None \<Rightarrow> 21 | Some ls \<Rightarrow> if ls = [] then 21 else length ls) \<and>
           (h \<in> {None, Some []} \<longrightarrow> vs = zeros 63) \<and>
           (\<forall>ls i. h = Some ls \<and> i < length ls \<longrightarrow>
              (\<exists>lm. ls ! i = Some lm \<and> take 3 (drop (3 * i) vs) = [lm_x lm, lm_y lm, lm_z lm]))"
proof (cases "h \<in> {None, Some []}")
  case True
  then show ?thesis
    by (auto simp: extractLandmarks_value zeros_def)
next
  case False
  then obtain ls where h: "h = Some ls" and ne: "ls \<noteq> []"
    by (cases h) auto
  from assms h have "None \<notin> set ls" by simp
  from flatMap_xyz_ok [OF this] obtain vs where
    vs: "flatMap_xyz ls = Inr vs" "length vs = 3 * length ls"
    by blast
  have "\<exists>lm. ls ! i = Some lm \<and> take 3 (drop (3 * i) vs) = [lm_x lm, lm_y lm, lm_z lm]"
    if "i < length ls" for i
    using flatMap_xyz_nth [OF vs(1) that] .
  with vs h ne show ?thesis
    by (simp add: extractLandmarks_value)
qed

lemma pose_loop_absent: "pose_loop absent_results POSE_INDICES (0, []) = (0, zeros 18)"
  by (simp add: POSE_INDICES_def pose_at_def absent_results_def zeros_def eval_nat_numeral)

lemma extract_absent: "snd (extractKeypoints s absent_results) = Inr (zeros 144)"
proof -
  have "snd (extractKeypoints s absent_results) = Inr (zeros 63 @ zeros 63 @ zeros 18)"
    by (simp add: extractKeypoints_def pose_loop_absent extractLandmarks_def)
       (simp add: absent_results_def)
  then show ?thesis by (simp add: zeros_append)
qed

text \<open>The debug counters after a call, in terms of the detection result.\<close>

lemma flatMap_xyz_throws: "(\<exists>e. flatMap_xyz ls = Inl e) \<longleftrightarrow> None \<in> set ls"
proof (cases "None \<in> set ls")
  case True
  then show ?thesis by (simp add: flatMap_xyz_null)
next
  case False
  then show ?thesis using flatMap_xyz_ok [of ls] by auto
qed

lemma extractKeypoints_counters:
  "landmarksDetected (fst (extractKeypoints s r)) =
     \<lparr> leftHand = (case leftHandLandmarks r of None \<Rightarrow> 0 | Some ls \<Rightarrow> length ls),
       rightHand =
         (if \<exists>ls. leftHandLandmarks r = Some ls \<and> None \<in> set ls then 0
          else case rightHandLandmarks r of None \<Rightarrow> 0 | Some ls \<Rightarrow> length ls),
       pose = length (filter (\<lambda>i. pose_at r i \<noteq> None) POSE_INDICES) \<rparr>"
proof -
  have t: "None \<in> set ls \<longleftrightarrow> (\<exists>e. flatMap_xyz ls = Inl e)" for ls
    by (simp add: flatMap_xyz_throws)
  show ?thesis
    unfolding extractKeypoints_def Let_def pose_loop_eq extractLandmarks_def set_detected_def t
    by (auto split: option.splits sum.splits)
qed

section \<open>Runs\<close>

lemma step_fire_times:
  "fire_times (snd (step s e)) =
     (case e of Results r now \<Rightarrow> if fired (snd (onResults s r now)) then [now] else []
      | _ \<Rightarrow> [])"
  by (cases e) (simp_all add: fire_times_def)

lemma run_Cons:
  "run s (e # es) = (fst (run (fst (step s e)) es), snd (step s e) @ snd (run (fst (step s e)) es))"
  by (simp add: split_beta)

lemma fire_times_append: "fire_times (a @ b) = fire_times a @ fire_times b"
  by (simp add: fire_times_def)

lemma fire_gap:
  "fired (snd (onResults s r now)) \<Longrightarrow> lastPredictionTime s + 400 < now"
  by (auto simp: fired_iff_gate gate_def PREDICTION_THROTTLE_MS_def)

lemma fire_times_spaced:
  "sorted_wrt (\<lambda>a b. a + 400 < b) (fire_times (snd (run s es))) \<and>
   (\<forall>t\<in>set (fire_times (snd (run s es))). lastPredictionTime s + 400 < t)"
proof (induction es arbitrary: s)
  case Nil
  show ?case by (simp add: fire_times_def)
next
  case (Cons e es)
  let ?s1 = "fst (step s e)"
  note IH = Cons.IH [of ?s1]
  show ?case
  proof (cases "\<exists>r now. e = Results r now \<and> fired (snd (onResults s r now))")
    case True
    then obtain r now where e: "e = Results r now" and f: "fired (snd (onResults s r now))"
      by blast
    have last1: "lastPredictionTime ?s1 = now"
      using f by (simp add: e lastPredictionTime_onResults)
    have gap: "lastPredictionTime s + 400 < now"
      using f by (rule fire_gap)
    have ft: "fire_times (snd (run s (e # es))) = now # fire_times (snd (run ?s1 es))"
      using f by (simp only: run_Cons snd_conv fire_times_append step_fire_times e) simp
    from IH last1 gap show ?thesis
      unfolding ft by fastforce
  next
    case False
    then have last1: "lastPredictionTime ?s1 = lastPredictionTime s"
      by (cases e)
         (auto simp: lastPredictionTime_onResults startCapture_def stopCapture_def
            processVideoFrame_def)
    have ft: "fire_times (snd (run s (e # es))) = fire_times (snd (run ?s1 es))"
      using False
      by (cases e) (simp_all only: run_Cons snd_conv fire_times_append step_fire_times, auto)
    from IH last1 show ?thesis
      unfolding ft by simp
  qed
qed

lemma spaced_window:
  "sorted_wrt (\<lambda>a b. a + 400 < b) (ts :: int list) \<Longrightarrow>
   length (filter (\<lambda>t. w \<le> t \<and> t \<le> w + 400) ts) \<le> 1"
proof (induction ts)
  case Nil
  show ?case by simp
next
  case (Cons t ts)
  show ?case
  proof (cases "w \<le> t \<and> t \<le> w + 400")
    case True
    have "filter (\<lambda>t. w \<le> t \<and> t \<le> w + 400) ts = []"
      using Cons.prems True by (auto simp: filter_empty_conv)
    with True show ?thesis by simp
  next
    case False
    with Cons show ?thesis by auto
  qed
qed

lemma run_append:
  "run s (es @ fs) =
     (fst (run (fst (run s es)) fs), snd (run s es) @ snd (run (fst (run s es)) fs))"
  by (induction es arbitrary: s) (simp_all add: split_beta)

lemma quiet_run:
  assumes "\<And>s. snd (extractKeypoints s r) = Inr kp"
    and "length (keypointSequence s) + k < N_FRAMES \<or>
         t - lastPredictionTime s \<le> PREDICTION_THROTTLE_MS"
  shows "keypointSequence (fst (run s (replicate k (Results r t)))) =
           keypointSequence s @ replicate k kp \<and>
         lastPredictionTime (fst (run s (replicate k (Results r t)))) = lastPredictionTime s \<and>
         onPredictionReady (fst (run s (replicate k (Results r t)))) = onPredictionReady s \<and>
         snd (run s (replicate k (Results r t))) = replicate k (t, NotFired)"
  using assms(2)
proof (induction k arbitrary: s)
  case 0
  show ?case by simp
next
  case (Suc k)
  let ?s1 = "fst (onResults s r t)"
  have ng: "\<not> gate s t"
    using Suc.prems by (auto simp: gate_def)
  have s1: "keypointSequence ?s1 = keypointSequence s @ [kp]"
    "lastPredictionTime ?s1 = lastPredictionTime s"
    "snd (onResults s r t) = NotFired"
    using ng onResults_ok [OF assms(1), of s t] by simp_all
  have "length (keypointSequence ?s1) + k < N_FRAMES \<or>
        t - lastPredictionTime ?s1 \<le> PREDICTION_THROTTLE_MS"
    using Suc.prems by (simp add: s1)
  from Suc.IH [OF this] show ?case
    by (simp add: split_beta s1 onResults_keeps replicate_append_same)
qed

lemma first_window_state:
  assumes "\<not> capturing s"
  shows "keypointSequence (fst (run s first_window)) = replicate 29 (zeros 144) \<and>
         lastPredictionTime (fst (run s first_window)) = lastPredictionTime s \<and>
         onPredictionReady (fst (run s first_window)) = onPredictionReady s \<and>
         snd (run s first_window) = replicate 29 (clock0, NotFired)"
proof -
  let ?s1 = "fst (startCapture s True)"
  have s1: "keypointSequence ?s1 = []" "lastPredictionTime ?s1 = lastPredictionTime s"
    "onPredictionReady ?s1 = onPredictionReady s"
    using assms by (simp_all add: startCapture_def)
  have "length (keypointSequence ?s1) + 29 < N_FRAMES \<or>
        clock0 - lastPredictionTime ?s1 \<le> PREDICTION_THROTTLE_MS"
    by (simp add: s1 N_FRAMES_def)
  from quiet_run [OF extract_absent this] show ?thesis
    by (simp add: first_window_def split_beta s1)
qed

lemma fast_session_state:
  assumes "\<not> capturing s" and "lastPredictionTime s = 0"
  shows "keypointSequence (fst (run s fast_session)) = replicate 31 (zeros 144) \<and>
         lastPredictionTime (fst (run s fast_session)) = clock0 \<and>
         onPredictionReady (fst (run s fast_session)) = onPredictionReady s"
proof -
  let ?s2 = "fst (run s first_window)"
  let ?s3 = "fst (onResults ?s2 absent_results clock0)"
  note w = first_window_state [OF assms(1)]
  have g: "gate ?s2 clock0"
    using w assms(2) by (simp add: gate_def N_FRAMES_def PREDICTION_THROTTLE_MS_def clock0_def)
  have "replicate 29 (zeros 144) @ replicate 1 (zeros 144) = replicate (29 + 1) (zeros 144)"
    by (simp only: replicate_add)
  then have "replicate 29 (zeros 144) @ [zeros 144] = replicate 30 (zeros 144)"
    by simp
  then have s3: "keypointSequence ?s3 = replicate 10 (zeros 144)"
    "lastPredictionTime ?s3 = clock0" "onPredictionReady ?s3 = onPredictionReady s"
    using g w onResults_ok(2,3) [OF extract_absent, of ?s2 clock0]
    by (simp_all add: slice_last_def onResults_keeps)
  have "length (keypointSequence ?s3) + 21 < N_FRAMES \<or>
        clock0 + 300 - lastPredictionTime ?s3 \<le> PREDICTION_THROTTLE_MS"
    by (simp add: s3 PREDICTION_THROTTLE_MS_def)
  from quiet_run [OF extract_absent this] show ?thesis
    by (simp add: fast_session_def run_append split_beta s3 replicate_add [symmetric])
qed

text \<open>
  The session above, followed by a callback 401 ms later, fires twice.
\<close>

lemma two_dispatches:
  "fire_times (snd (run constructor (fast_session @ [Results absent_results (clock0 + 401)]))) =
     [clock0, clock0 + 401]"
proof -
  let ?s2 = "fst (run constructor first_window)"
  let ?s3 = "fst (onResults ?s2 absent_results clock0)"
  have nc: "\<not> capturing constructor" "lastPredictionTime constructor = 0"
    by (simp_all add: constructor_def)
  note w = first_window_state [OF nc(1)]
  have g: "gate ?s2 clock0"
    using w nc(2) by (simp add: gate_def N_FRAMES_def PREDICTION_THROTTLE_MS_def clock0_def)
  have f1: "fired (snd (onResults ?s2 absent_results clock0))"
    using g by (simp add: fired_iff_gate extract_absent)
  have s3: "keypointSequence ?s3 = slice_last 10 (replicate 29 (zeros 144) @ [zeros 144])"
    "lastPredictionTime ?s3 = clock0"
    using g w onResults_ok(2,3) [OF extract_absent, of ?s2 clock0] by simp_all
  have "length (keypointSequence ?s3) + 21 < N_FRAMES \<or>
        clock0 + 300 - lastPredictionTime ?s3 \<le> PREDICTION_THROTTLE_MS"
    by (simp add: s3 PREDICTION_THROTTLE_MS_def)
  from quiet_run [OF extract_absent this]
  have q: "snd (run ?s3 (replicate 21 (Results absent_results (clock0 + 300)))) =
           replicate 21 (clock0 + 300, NotFired)"
    by simp
  let ?s4 = "fst (run constructor fast_session)"
  have s4: "keypointSequence ?s4 = replicate 31 (zeros 144)" "lastPredictionTime ?s4 = clock0"
    using fast_session_state [OF nc] by simp_all
  have f2: "fired (snd (onResults ?s4 absent_results (clock0 + 401)))"
    by (simp add: fired_iff_gate extract_absent gate_def s4 N_FRAMES_def
          PREDICTION_THROTTLE_MS_def)
  have "fire_times (snd (run constructor fast_session)) = [clock0]"
    using w f1 q
    by (simp add: fast_session_def run_append split_beta fire_times_append)
       (simp add: fire_times_def fired_def)
  with f2 show ?thesis
    by (simp add: run_append fire_times_append) (simp add: fire_times_def)
qed

section \<open>The earlier copy: same gate, full clear\<close>

text \<open>
  The earlier \<open>onResults\<close> fires under the same condition and then leaves the buffer
  empty; its \<open>extractKeypoints\<close> returns what the later one returns unless a hand set
  is present and empty.
\<close>

lemma onResults_v1_gate:
  "fired (snd (onResults_v1 s r now)) =
     (gate s now \<and> (\<exists>kp. extractKeypoints_v1 r = Inr kp))"
  by (auto simp: onResults_v1_def gate_def fired_def Let_def split: sum.splits)

lemma onResults_v1_clears:
  "fired (snd (onResults_v1 s r now)) \<Longrightarrow> keypointSequence (fst (onResults_v1 s r now)) = []"
  by (auto simp: onResults_v1_def fired_def Let_def split: sum.splits if_splits)

lemma extractKeypoints_v1_agrees:
  assumes "leftHandLandmarks r \<noteq> Some []" and "rightHandLandmarks r \<noteq> Some []"
  shows "snd (extractKeypoints s r) = extractKeypoints_v1 r"
  using assms
  by (auto simp: extractKeypoints_value extractLandmarks_value extractKeypoints_v1_def
        extract_v1_def Let_def split: option.splits sum.splits)

lemma onResults_v1_ok:
  assumes "extractKeypoints_v1 r = Inr kp"
  shows "snd (onResults_v1 s r now) =
           (if gate s now
            then (if onPredictionReady s then Predict (keypointSequence s @ [kp])
                  else FiredNoCallback)
            else NotFired)"
    and "keypointSequence (fst (onResults_v1 s r now)) =
           (if gate s now then [] else keypointSequence s @ [kp])"
    and "lastPredictionTime (fst (onResults_v1 s r now)) =
           (if gate s now then now else lastPredictionTime s)"
  by (simp_all add: onResults_v1_def assms gate_def Let_def)

lemma onResults_v1_raised:
  "extractKeypoints_v1 r = Inl e \<Longrightarrow> onResults_v1 s r now = (s, Raised e)"
  by (simp add: onResults_v1_def)

lemma lastPredictionTime_onResults_v1:
  "lastPredictionTime (fst (onResults_v1 s r now)) =
     (if fired (snd (onResults_v1 s r now)) then now else lastPredictionTime s)"
  by (cases "extractKeypoints_v1 r")
     (simp_all add: onResults_v1_raised onResults_v1_ok fired_def)

lemma fire_gap_v1:
  "fired (snd (onResults_v1 s r now)) \<Longrightarrow> lastPredictionTime s + 400 < now"
  by (auto simp: onResults_v1_gate gate_def PREDICTION_THROTTLE_MS_def)

lemma run_v1_Cons:
  "run_v1 s (e # es) =
     (fst (run_v1 (fst (step_v1 s e)) es),
      snd (step_v1 s e) @ snd (run_v1 (fst (step_v1 s e)) es))"
  by (simp add: split_beta)

lemma step_v1_fire_times:
  "fire_times (snd (step_v1 s e)) =
     (case e of Results r now \<Rightarrow> if fired (snd (onResults_v1 s r now)) then [now] else []
      | _ \<Rightarrow> [])"
  by (cases e) (simp_all add: fire_times_def)

lemma fire_times_spaced_v1:
  "sorted_wrt (\<lambda>a b. a + 400 < b) (fire_times (snd (run_v1 s es))) \<and>
   (\<forall>t\<in>set (fire_times (snd (run_v1 s es))). lastPredictionTime s + 400 < t)"
proof (induction es arbitrary: s)
  case Nil
  show ?case by (simp add: fire_times_def)
next
  case (Cons e es)
  let ?s1 = "fst (step_v1 s e)"
  note IH = Cons.IH [of ?s1]
  show ?case
  proof (cases "\<exists>r now. e = Results r now \<and> fired (snd (onResults_v1 s r now))")
    case True
    then obtain r now where e: "e = Results r now" and f: "fired (snd (onResults_v1 s r now))"
      by blast
    have last1: "lastPredictionTime ?s1 = now"
      using f by (simp add: e lastPredictionTime_onResults_v1)
    have gap: "lastPredictionTime s + 400 < now"
      using f by (rule fire_gap_v1)
    have ft: "fire_times (snd (run_v1 s (e # es))) = now # fire_times (snd (run_v1 ?s1 es))"
      using f by (simp only: run_v1_Cons snd_conv fire_times_append step_v1_fire_times e) simp
    from IH last1 gap show ?thesis
      unfolding ft by fastforce
  next
    case False
    then have last1: "lastPredictionTime ?s1 = lastPredictionTime s"
      by (cases e)
         (auto simp: lastPredictionTime_onResults_v1 startCapture_v1_def stopCapture_v1_def
            processVideoFrame_v1_def Let_def)
    have ft: "fire_times (snd (run_v1 s (e # es))) = fire_times (snd (run_v1 ?s1 es))"
      using False
      by (cases e) (simp_all only: run_v1_Cons snd_conv fire_times_append step_v1_fire_times, auto)
    from IH last1 show ?thesis
      unfolding ft by simp
  qed
qed

lemma extractKeypoints_v1_absent: "extractKeypoints_v1 absent_results = Inr (zeros 144)"
  using extractKeypoints_v1_agrees [of absent_results constructor] extract_absent [of constructor]
  by (simp add: absent_results_def)

lemma quiet_run_v1:
  assumes "extractKeypoints_v1 r = Inr kp"
    and "length (keypointSequence s) + k < N_FRAMES \<or>
         t - lastPredictionTime s \<le> PREDICTION_THROTTLE_MS"
  shows "keypointSequence (fst (run_v1 s (replicate k (Results r t)))) =
           keypointSequence s @ replicate k kp \<and>
         lastPredictionTime (fst (run_v1 s (replicate k (Results r t)))) = lastPredictionTime s"
  using assms(2)
proof (induction k arbitrary: s)
  case 0
  show ?case by simp
next
  case (Suc k)
  let ?s1 = "fst (onResults_v1 s r t)"
  have ng: "\<not> gate s t"
    using Suc.prems by (auto simp: gate_def)
  have s1: "keypointSequence ?s1 = keypointSequence s @ [kp]"
    "lastPredictionTime ?s1 = lastPredictionTime s"
    using ng onResults_v1_ok [OF assms(1), of s t] by simp_all
  have "length (keypointSequence ?s1) + k < N_FRAMES \<or>
        t - lastPredictionTime ?s1 \<le> PREDICTION_THROTTLE_MS"
    using Suc.prems by (simp add: s1)
  from Suc.IH [OF this] show ?case
    by (simp add: split_beta s1 replicate_append_same)
qed

lemma first_window_state_v1:
  "keypointSequence (fst (run_v1 constructor first_window)) = replicate 29 (zeros 144) \<and>
   lastPredictionTime (fst (run_v1 constructor first_window)) = 0"
proof -
  let ?s1 = "fst (startCapture_v1 constructor True)"
  have s1: "keypointSequence ?s1 = []" "lastPredictionTime ?s1 = 0"
    by (simp_all add: startCapture_v1_def constructor_def)
  have "length (keypointSequence ?s1) + 29 < N_FRAMES \<or>
        clock0 - lastPredictionTime ?s1 \<le> PREDICTION_THROTTLE_MS"
    by (simp add: s1 N_FRAMES_def)
  from quiet_run_v1 [OF extractKeypoints_v1_absent this] show ?thesis
    by (simp add: first_window_def split_beta s1)
qed

section \<open>The sequence validator\<close>

lemma invalid_value_JNum:
  "(isNaN (JNum v) \<or> \<not> isFinite (JNum v)) = (v \<in> {NaN, PosInfinity, NegInfinity})"
  by (cases v) (simp_all add: isNaN_def isFinite_def)

lemma list_ex_invalid:
  "list_ex (\<lambda>val. isNaN val \<or> \<not> isFinite val) (map JNum f) =
     (\<exists>v\<in>set f. v \<in> {NaN, PosInfinity, NegInfinity})"
  by (simp add: list_ex_iff invalid_value_JNum)

lemma validate_frames_typed:
  "validate_frames (map js_frame q) =
     Inr (\<forall>f\<in>set q. length f = 144 \<and> (\<forall>v\<in>set f. v \<notin> {NaN, PosInfinity, NegInfinity}))"
proof (induction q)
  case Nil
  show ?case by simp
next
  case (Cons f q)
  have "validate_frames (js_frame f # map js_frame q) =
          (if length f \<noteq> 144 then Inr False
           else if \<exists>v\<in>set f. v \<in> {NaN, PosInfinity, NegInfinity} then Inr False
           else validate_frames (map js_frame q))"
    by (simp add: js_frame_def list_ex_invalid)
  with Cons.IH show ?case by auto
qed

text \<open>
  On any value of the model, the validator answers \<open>true\<close> exactly for arrays of 30
  arrays of 144 values that \<open>isFinite\<close> accepts.
\<close>

lemma validateSequence_accepts:
  "validateSequence v = Inr True \<longleftrightarrow>
     (\<exists>frames. v = JArr frames \<and> length frames = 30 \<and>
        (\<forall>f\<in>set frames. \<exists>vals. f = JArr vals \<and> length vals = 144 \<and>
           (\<forall>val\<in>set vals. isFinite val)))"
proof -
  have nan: "isFinite val \<Longrightarrow> \<not> isNaN val" for val
    by (auto simp: isFinite_def isNaN_def split: jsnum.splits)
  have "validate_frames fs = Inr True \<longleftrightarrow>
     (\<forall>f\<in>set fs. \<exists>vals. f = JArr vals \<and> length vals = 144 \<and>
           (\<forall>val\<in>set vals. isFinite val))" for fs
    by (induction fs) (auto simp: list_ex_iff nan split: jsval.splits)
  then show ?thesis
    by (cases v) (auto simp: validateSequence_def N_FRAMES_def)
qed

text \<open>
  C5.  On a candidate that is an array of arrays of numbers, \<open>validateSequence\<close> returns
  \<open>true\<close> exactly when the outer length is 30, every inner vector has length 144, and no
  element is NaN or infinite; it returns \<open>false\<close> on every other such candidate, and it
  does not throw on any of them.
\<close>

theorem validateSequence_verdict:
  "validateSequence (js_sequence q) =
     Inr (length q = 30 \<and>
          (\<forall>f\<in>set q. length f = 144 \<and> (\<forall>v\<in>set f. v \<notin> {NaN, PosInfinity, NegInfinity})))"
  by (simp add: validateSequence_def js_sequence_def N_FRAMES_def validate_frames_typed)

text \<open>
  The verdict at four candidates: 30 vectors of 144 zeros pass; a short inner vector, a
  short sequence, and a NaN in the last vector are each rejected.
\<close>

theorem validateSequence_verdict_witness:
  "validateSequence (js_sequence (replicate 30 (zeros 144))) = Inr True \<and>
   validateSequence (js_sequence (replicate 30 (zeros 143))) = Inr False \<and>
   validateSequence (js_sequence (replicate 29 (zeros 144))) = Inr False \<and>
   validateSequence (js_sequence (replicate 29 (zeros 144) @ [zeros 143 @ [NaN]])) = Inr False"
  using validateSequence_verdict [of "replicate 30 (zeros 144)"]
        validateSequence_verdict [of "replicate 30 (zeros 143)"]
        validateSequence_verdict [of "replicate 29 (zeros 144)"]
        validateSequence_verdict [of "replicate 29 (zeros 144) @ [zeros 143 @ [NaN]]"]
  by (simp add: zeros_def)

text \<open>
  C10.  \<open>validateSequence\<close> does throw on some inputs.  A \<open>null\<close> frame fails
  \<open>Array.isArray\<close> and so enters the mismatch branch, and the message built there reads
  \<open>frame.length\<close> of \<open>null\<close>: the call ends in a TypeError instead of returning
  \<open>false\<close>.
\<close>

theorem validateSequence_null_frame:
  "validateSequence (JArr (JNull # replicate 29 (js_frame (zeros 144)))) = Inl TypeError"
  by (simp add: validateSequence_def N_FRAMES_def)

section \<open>The prediction gate\<close>

text \<open>
  C2.  In every state, a detection callback fires the gate exactly when the feature vector
  was extracted, the buffer (with the new vector appended) holds at least \<open>N_FRAMES\<close>
  vectors, and more than \<open>PREDICTION_THROTTLE_MS\<close> have passed since the recorded last
  dispatch; so the gate never fires on a buffer shorter than 30.  In every run, from any
  state and over any events, every window of \<open>PREDICTION_THROTTLE_MS\<close> milliseconds
  contains at most one clock reading at which the gate fired.  Both hold for the later
  and for the earlier copy of the class.
\<close>

theorem prediction_gate:
  "(fired (snd (onResults s r now)) \<longleftrightarrow>
      (\<exists>kp. snd (extractKeypoints s r) = Inr kp) \<and>
      length (keypointSequence s) + 1 \<ge> N_FRAMES \<and>
      now - lastPredictionTime s > PREDICTION_THROTTLE_MS) \<and>
   length (filter (\<lambda>t. w \<le> t \<and> t \<le> w + PREDICTION_THROTTLE_MS)
             (fire_times (snd (run s0 es)))) \<le> 1 \<and>
   (fired (snd (onResults_v1 s r now)) \<longleftrightarrow>
      (\<exists>kp. extractKeypoints_v1 r = Inr kp) \<and>
      length (keypointSequence s) + 1 \<ge> N_FRAMES \<and>
      now - lastPredictionTime s > PREDICTION_THROTTLE_MS) \<and>
   length (filter (\<lambda>t. w \<le> t \<and> t \<le> w + PREDICTION_THROTTLE_MS)
             (fire_times (snd (run_v1 s0 es)))) \<le> 1"
proof -
  have "sorted_wrt (\<lambda>a b. a + 400 < b) (fire_times (snd (run s0 es)))"
    using fire_times_spaced [of s0 es] by blast
  then have a: "length (filter (\<lambda>t. w \<le> t \<and> t \<le> w + 400) (fire_times (snd (run s0 es)))) \<le> 1"
    by (rule spaced_window)
  have "sorted_wrt (\<lambda>a b. a + 400 < b) (fire_times (snd (run_v1 s0 es)))"
    using fire_times_spaced_v1 [of s0 es] by blast
  then have b: "length (filter (\<lambda>t. w \<le> t \<and> t \<le> w + 400) (fire_times (snd (run_v1 s0 es)))) \<le> 1"
    by (rule spaced_window)
  from a b show ?thesis
    by (auto simp: fired_iff_gate onResults_v1_gate gate_def PREDICTION_THROTTLE_MS_def)
qed

section \<open>The flush\<close>

text \<open>
  C4, as stated, fails on the earlier copy of \<open>onResults\<close>: there the 30th callback
  of a session fires the gate on a buffer of 30 vectors and leaves the buffer empty.
\<close>

theorem full_clear_in_earlier_copy:
  "extractKeypoints_v1 absent_results = Inr (zeros 144) \<and>
   length (keypointSequence (fst (run_v1 constructor first_window)) @ [zeros 144]) = 30 \<and>
   fired (snd (onResults_v1 (fst (run_v1 constructor first_window)) absent_results clock0)) \<and>
   length (keypointSequence
     (fst (onResults_v1 (fst (run_v1 constructor first_window)) absent_results clock0))) = 0"
proof -
  let ?s = "fst (run_v1 constructor first_window)"
  note w = first_window_state_v1
  have g: "gate ?s clock0"
    by (simp add: gate_def w N_FRAMES_def PREDICTION_THROTTLE_MS_def clock0_def)
  then have "fired (snd (onResults_v1 ?s absent_results clock0))"
    by (simp add: onResults_v1_gate extractKeypoints_v1_absent)
  then show ?thesis
    using onResults_v1_clears [of ?s absent_results clock0] w
    by (simp add: extractKeypoints_v1_absent)
qed

text \<open>
  C4, amended.  In the later copy, whenever a callback fires the gate, the buffer it
  leaves behind holds exactly 10 vectors: not none, and not as many as before the flush,
  which held more than 10; and the buffer before the flush (the old buffer with the new
  vector appended) ends with the retained vectors, in the same order.  In the earlier
  copy a callback that fires the gate leaves the buffer empty.
\<close>

theorem flush_retains_tail:
  "(snd (extractKeypoints s r) = Inr kp \<and> fired (snd (onResults s r now)) \<longrightarrow>
      length (keypointSequence (fst (onResults s r now))) = 10 \<and>
      length (keypointSequence (fst (onResults s r now))) \<noteq> 0 \<and>
      length (keypointSequence (fst (onResults s r now))) \<noteq> length (keypointSequence s @ [kp]) \<and>
      10 < length (keypointSequence s @ [kp]) \<and>
      (\<exists>front. keypointSequence s @ [kp] = front @ keypointSequence (fst (onResults s r now)))) \<and>
   (fired (snd (onResults_v1 s r now)) \<longrightarrow>
      keypointSequence (fst (onResults_v1 s r now)) = [])"
proof -
  have "length (keypointSequence (fst (onResults s r now))) = 10 \<and>
      30 \<le> length (keypointSequence s @ [kp]) \<and>
      (\<exists>front. keypointSequence s @ [kp] = front @ keypointSequence (fst (onResults s r now)))"
    if ok: "snd (extractKeypoints s r) = Inr kp" and f: "fired (snd (onResults s r now))"
  proof -
    let ?pre = "keypointSequence s @ [kp]"
    have g: "gate s now"
      using f by (simp add: fired_iff_gate)
    then have len: "30 \<le> length ?pre"
      by (simp add: gate_def N_FRAMES_def)
    have post: "keypointSequence (fst (onResults s r now)) = slice_last 10 ?pre"
      using onResults_ok(2) [OF ok, of now] g by simp
    have "length (slice_last 10 ?pre) = 10"
      using len by (intro slice_last_length) simp
    moreover have "\<exists>front. ?pre = front @ slice_last 10 ?pre"
      by (rule slice_last_suffix)
    ultimately show ?thesis
      using len unfolding post by simp
  qed
  moreover have "keypointSequence (fst (onResults_v1 s r now)) = []"
    if "fired (snd (onResults_v1 s r now))"
    using that by (rule onResults_v1_clears)
  ultimately show ?thesis
    by auto
qed

text \<open>
  The 30th callback of a session: it fires, and 10 of the 30 vectors stay in the later
  copy, none in the earlier one.
\<close>

theorem flush_retains_tail_witness:
  "snd (extractKeypoints (fst (run constructor first_window)) absent_results) = Inr (zeros 144) \<and>
   fired (snd (onResults (fst (run constructor first_window)) absent_results clock0)) \<and>
   length (keypointSequence (fst (run constructor first_window)) @ [zeros 144]) = 30 \<and>
   length (keypointSequence
     (fst (onResults (fst (run constructor first_window)) absent_results clock0))) = 10 \<and>
   fired (snd (onResults_v1 (fst (run_v1 constructor first_window)) absent_results clock0)) \<and>
   keypointSequence
     (fst (onResults_v1 (fst (run_v1 constructor first_window)) absent_results clock0)) = []"
proof -
  let ?s = "fst (run constructor first_window)"
  let ?t = "fst (run_v1 constructor first_window)"
  have w: "keypointSequence ?s = replicate 29 (zeros 144)" "lastPredictionTime ?s = 0"
    using first_window_state [of constructor] by (simp_all add: constructor_def)
  have 1: "snd (extractKeypoints ?s absent_results) = Inr (zeros 144)"
    by (rule extract_absent)
  have 2: "fired (snd (onResults ?s absent_results clock0))"
    by (simp add: fired_iff_gate gate_def w 1 N_FRAMES_def PREDICTION_THROTTLE_MS_def clock0_def)
  have 3: "fired (snd (onResults_v1 ?t absent_results clock0))"
    by (simp add: onResults_v1_gate extractKeypoints_v1_absent gate_def first_window_state_v1
          N_FRAMES_def PREDICTION_THROTTLE_MS_def clock0_def)
  show ?thesis
    using flush_retains_tail [of ?s absent_results "zeros 144" clock0]
      flush_retains_tail [of ?t absent_results "zeros 144" clock0] 1 2 3
    by (simp add: w)
qed

section \<open>The buffer has no upper bound\<close>

text \<open>
  C6, as stated, fails.  A session that starts, receives 30 callbacks at one clock reading
  (the 30th fires and leaves 10 vectors) and 21 more callbacks 300 ms later reaches a state
  whose buffer holds 31 vectors: the throttle keeps the gate closed, and nothing else cuts
  the buffer.
\<close>

theorem buffer_exceeds_N_FRAMES:
  "length (keypointSequence (fst (run constructor fast_session))) = 31 \<and> N_FRAMES = 30"
  using fast_session_state [of constructor] by (simp add: constructor_def N_FRAMES_def)

text \<open>
  C6, amended.  In both copies, a callback lengthens the buffer by at most one vector.  A
  callback that extracts its vector when more than \<open>PREDICTION_THROTTLE_MS\<close> have
  passed since the last dispatch leaves fewer than \<open>N_FRAMES\<close> vectors in the buffer,
  whatever its length was; one that arrives within the throttle interval leaves the buffer
  one vector longer, with no bound.
\<close>

theorem buffer_bound:
  "length (keypointSequence (fst (onResults s r now))) \<le> length (keypointSequence s) + 1 \<and>
   (snd (extractKeypoints s r) = Inr kp \<and> now - lastPredictionTime s > PREDICTION_THROTTLE_MS
      \<longrightarrow> length (keypointSequence (fst (onResults s r now))) < N_FRAMES) \<and>
   (snd (extractKeypoints s r) = Inr kp \<and> now - lastPredictionTime s \<le> PREDICTION_THROTTLE_MS
      \<longrightarrow> length (keypointSequence (fst (onResults s r now))) = length (keypointSequence s) + 1) \<and>
   length (keypointSequence (fst (onResults_v1 s r now))) \<le> length (keypointSequence s) + 1 \<and>
   (extractKeypoints_v1 r = Inr kp \<and> now - lastPredictionTime s > PREDICTION_THROTTLE_MS
      \<longrightarrow> length (keypointSequence (fst (onResults_v1 s r now))) < N_FRAMES) \<and>
   (extractKeypoints_v1 r = Inr kp \<and> now - lastPredictionTime s \<le> PREDICTION_THROTTLE_MS
      \<longrightarrow> length (keypointSequence (fst (onResults_v1 s r now))) = length (keypointSequence s) + 1)"
proof -
  have later: "length (keypointSequence (fst (onResults s r now))) \<le> length (keypointSequence s) + 1 \<and>
   (snd (extractKeypoints s r) = Inr kp \<and> now - lastPredictionTime s > PREDICTION_THROTTLE_MS
      \<longrightarrow> length (keypointSequence (fst (onResults s r now))) < N_FRAMES) \<and>
   (snd (extractKeypoints s r) = Inr kp \<and> now - lastPredictionTime s \<le> PREDICTION_THROTTLE_MS
      \<longrightarrow> length (keypointSequence (fst (onResults s r now))) = length (keypointSequence s) + 1)"
  proof (cases "snd (extractKeypoints s r)")
    case (Inl e)
    then show ?thesis by (simp add: onResults_raised(2))
  next
    case (Inr kp')
    show ?thesis
    proof (cases "gate s now")
      case True
      then have "30 \<le> length (keypointSequence s @ [kp'])"
        by (simp add: gate_def N_FRAMES_def)
      then have "length (slice_last 10 (keypointSequence s @ [kp'])) = 10"
        by (intro slice_last_length) simp
      with True Inr show ?thesis
        using onResults_ok(2) [OF Inr, of now]
        by (auto simp: N_FRAMES_def gate_def)
    next
      case False
      with Inr show ?thesis
        using onResults_ok(2) [OF Inr, of now]
        by (auto simp: gate_def)
    qed
  qed
  have earlier: "length (keypointSequence (fst (onResults_v1 s r now))) \<le> length (keypointSequence s) + 1 \<and>
   (extractKeypoints_v1 r = Inr kp \<and> now - lastPredictionTime s > PREDICTION_THROTTLE_MS
      \<longrightarrow> length (keypointSequence (fst (onResults_v1 s r now))) < N_FRAMES) \<and>
   (extractKeypoints_v1 r = Inr kp \<and> now - lastPredictionTime s \<le> PREDICTION_THROTTLE_MS
      \<longrightarrow> length (keypointSequence (fst (onResults_v1 s r now))) = length (keypointSequence s) + 1)"
  proof (cases "extractKeypoints_v1 r")
    case (Inl e)
    then show ?thesis by (simp add: onResults_v1_raised)
  next
    case (Inr kp')
    then show ?thesis
      using onResults_v1_ok(2) [OF Inr, of s now]
      by (auto simp: gate_def N_FRAMES_def)
  qed
  from later earlier show ?thesis by blast
qed

text \<open>
  After the session above: a callback 401 ms after the last dispatch cuts the buffer below
  30, one 350 ms after it lengthens the buffer to 32.  In the earlier copy, the 30th
  callback of a session leaves fewer than 30.
\<close>

theorem buffer_bound_witness:
  "snd (extractKeypoints (fst (run constructor fast_session)) absent_results) = Inr (zeros 144) \<and>
   (clock0 + 401) - lastPredictionTime (fst (run constructor fast_session)) > PREDICTION_THROTTLE_MS \<and>
   (clock0 + 350) - lastPredictionTime (fst (run constructor fast_session)) \<le> PREDICTION_THROTTLE_MS \<and>
   length (keypointSequence
     (fst (onResults (fst (run constructor fast_session)) absent_results (clock0 + 401)))) < N_FRAMES \<and>
   length (keypointSequence
     (fst (onResults (fst (run constructor fast_session)) absent_results (clock0 + 350)))) = 32 \<and>
   extractKeypoints_v1 absent_results = Inr (zeros 144) \<and>
   clock0 - lastPredictionTime (fst (run_v1 constructor first_window)) > PREDICTION_THROTTLE_MS \<and>
   length (keypointSequence
     (fst (onResults_v1 (fst (run_v1 constructor first_window)) absent_results clock0))) < N_FRAMES"
proof -
  let ?s = "fst (run constructor fast_session)"
  let ?t = "fst (run_v1 constructor first_window)"
  have w: "keypointSequence ?s = replicate 31 (zeros 144)" "lastPredictionTime ?s = clock0"
    using fast_session_state [of constructor] by (simp_all add: constructor_def)
  have 1: "snd (extractKeypoints ?s absent_results) = Inr (zeros 144)"
    by (rule extract_absent)
  have t: "lastPredictionTime ?t = 0"
    using first_window_state_v1 by simp
  show ?thesis
    using buffer_bound [of ?s absent_results "clock0 + 401" "zeros 144"]
      buffer_bound [of ?s absent_results "clock0 + 350" "zeros 144"]
      buffer_bound [of ?t absent_results clock0 "zeros 144"] 1
    by (simp add: w t PREDICTION_THROTTLE_MS_def extractKeypoints_v1_absent clock0_def)
qed

section \<open>Dispatch is not validated\<close>

text \<open>
  C3, as stated, fails.  With a prediction callback set, the session above followed by a
  callback 401 ms after the last dispatch passes a snapshot of 32 vectors to the callback;
  \<open>validateSequence\<close> rejects that snapshot.  Nothing on the way from \<open>onResults\<close> to
  the socket calls \<open>validateSequence\<close>.
\<close>

theorem unvalidated_dispatch:
  "last (snd (run (setPredictionCallback constructor)
           (fast_session @ [Results absent_results (clock0 + 401)]))) =
     (clock0 + 401, Predict (replicate 32 (zeros 144))) \<and>
   validateSequence (js_sequence (replicate 32 (zeros 144))) = Inr False"
proof -
  let ?init = "setPredictionCallback constructor"
  let ?s = "fst (run ?init fast_session)"
  have w: "keypointSequence ?s = replicate 31 (zeros 144)" "lastPredictionTime ?s = clock0"
    "onPredictionReady ?s"
    using fast_session_state [of ?init]
    by (simp_all add: constructor_def setPredictionCallback_def)
  have g: "gate ?s (clock0 + 401)"
    by (simp add: gate_def w N_FRAMES_def PREDICTION_THROTTLE_MS_def)
  have "replicate 31 (zeros 144) @ replicate 1 (zeros 144) = replicate (31 + 1) (zeros 144)"
    by (simp only: replicate_add)
  then have q: "replicate 31 (zeros 144) @ [zeros 144] = replicate 32 (zeros 144)"
    by simp
  have "snd (onResults ?s absent_results (clock0 + 401)) = Predict (replicate 32 (zeros 144))"
    using onResults_ok(1) [OF extract_absent, of ?s "clock0 + 401"] g w q by simp
  then have "last (snd (run ?init (fast_session @ [Results absent_results (clock0 + 401)]))) =
     (clock0 + 401, Predict (replicate 32 (zeros 144)))"
    by (simp add: run_append)
  moreover have "validateSequence (js_sequence (replicate 32 (zeros 144))) = Inr False"
    by (simp add: validateSequence_def js_sequence_def N_FRAMES_def)
  ultimately show ?thesis by simp
qed

text \<open>
  C3, amended.  Whenever the gate fires and a prediction callback is set, the snapshot of
  the whole buffer is passed to the callback as it is, whatever \<open>validateSequence\<close>
  would say about it; with no callback set nothing is passed on.  The callback the
  application installs emits the sequence it is given on the socket whenever the socket
  is connected, again without validating it.
\<close>

theorem dispatch_without_validation:
  assumes "snd (extractKeypoints s r) = Inr kp"
    and "gate s now"
  shows "snd (onResults s r now) =
           (if onPredictionReady s then Predict (keypointSequence s @ [kp]) else FiredNoCallback) \<and>
         handleSequenceReady w h (keypointSequence s @ [kp]) =
           (if socket w \<and> isConnected w then Some (predict_sequence (keypointSequence s @ [kp]) h)
            else None)"
  using onResults_ok(1) [OF assms(1), of now] assms(2)
  by (simp add: handleSequenceReady_def predictSequence_def)

text \<open>
  The 30th callback of a session with a callback set and a connected socket.
\<close>

theorem dispatch_without_validation_witness:
  "snd (extractKeypoints (fst (run (setPredictionCallback constructor) first_window))
          absent_results) = Inr (zeros 144) \<and>
   gate (fst (run (setPredictionCallback constructor) first_window)) clock0 \<and>
   snd (onResults (fst (run (setPredictionCallback constructor) first_window))
          absent_results clock0) =
     Predict (replicate 29 (zeros 144) @ [zeros 144]) \<and>
   handleSequenceReady \<lparr> socket = True, isConnected = True \<rparr> []
       (replicate 29 (zeros 144) @ [zeros 144]) =
     Some (predict_sequence (replicate 29 (zeros 144) @ [zeros 144]) [])"
proof -
  let ?init = "setPredictionCallback constructor"
  let ?s = "fst (run ?init first_window)"
  have w: "keypointSequence ?s = replicate 29 (zeros 144)" "lastPredictionTime ?s = 0"
    "onPredictionReady ?s"
    using first_window_state [of ?init]
    by (simp_all add: constructor_def setPredictionCallback_def)
  have 1: "snd (extractKeypoints ?s absent_results) = Inr (zeros 144)"
    by (rule extract_absent)
  have 2: "gate ?s clock0"
    by (simp add: gate_def w N_FRAMES_def PREDICTION_THROTTLE_MS_def clock0_def)
  show ?thesis
    using dispatch_without_validation
      [OF 1 2, of "\<lparr> socket = True, isConnected = True \<rparr>" "[]"] 1 2
    by (simp add: w)
qed

section \<open>Stopping and restarting\<close>

text \<open>
  C7, as stated, fails.  A session is started, one frame is submitted, and the session is
  stopped: the manager is not capturing and the buffer is empty.  The detection callback
  for the submitted frame, delivered now, appends its vector to the buffer; delivered
  after the next start, it appends its vector to the buffer of the new session.
\<close>

theorem stale_callback_appends:
  "\<not> capturing (fst (run constructor stopped_session)) \<and>
   keypointSequence (fst (run constructor stopped_session)) = [] \<and>
   keypointSequence (fst (run constructor (stopped_session @ [Results absent_results clock0]))) =
     [zeros 144] \<and>
   keypointSequence (fst (run constructor
       (stopped_session @ [StartCapture True, Results absent_results clock0]))) = [zeros 144]"
proof -
  let ?s = "fst (run constructor stopped_session)"
  have s: "\<not> capturing ?s" "keypointSequence ?s = []" "lastPredictionTime ?s = 0"
    by (simp_all add: stopped_session_def constructor_def startCapture_def
          processVideoFrame_def stopCapture_def)
  have ng: "\<not> gate ?s clock0"
    by (simp add: gate_def s N_FRAMES_def)
  have a: "keypointSequence (fst (onResults ?s absent_results clock0)) = [zeros 144]"
    using onResults_ok(2) [OF extract_absent, of ?s clock0] ng s by simp
  let ?t = "fst (startCapture ?s True)"
  have t: "keypointSequence ?t = []" "lastPredictionTime ?t = 0"
    using s by (simp_all add: startCapture_def)
  have ngt: "\<not> gate ?t clock0"
    by (simp add: gate_def t N_FRAMES_def)
  have b: "keypointSequence (fst (onResults ?t absent_results clock0)) = [zeros 144]"
    using onResults_ok(2) [OF extract_absent, of ?t clock0] ngt t by simp
  show ?thesis
    using s a b by (simp add: run_append split_beta)
qed

text \<open>
  C7, amended.  In neither copy does \<open>onResults\<close> read the \<open>capturing\<close> flag: a
  callback delivered after \<open>stopCapture\<close> does to the manager what it would do while
  capturing, and (in the later copy) whenever it extracts its vector it changes the
  buffer.  What stops after \<open>stopCapture\<close> is the submission of frames:
  \<open>processVideoFrame\<close> returns at once, sending nothing.
\<close>

theorem stale_callback_processed:
  "onResults (s\<lparr>capturing := c\<rparr>) r now =
     ((fst (onResults s r now))\<lparr>capturing := c\<rparr>, snd (onResults s r now)) \<and>
   (snd (extractKeypoints s r) = Inr kp \<longrightarrow>
      keypointSequence (fst (onResults s r now)) \<noteq> keypointSequence s) \<and>
   processVideoFrame (s\<lparr>capturing := False\<rparr>) = (s\<lparr>capturing := False\<rparr>, False) \<and>
   onResults_v1 (s\<lparr>capturing := c\<rparr>) r now =
     ((fst (onResults_v1 s r now))\<lparr>capturing := c\<rparr>, snd (onResults_v1 s r now)) \<and>
   processVideoFrame_v1 (s\<lparr>capturing := False\<rparr>) = (s\<lparr>capturing := False\<rparr>, False)"
proof -
  have "keypointSequence (fst (onResults s r now)) \<noteq> keypointSequence s"
    if ok: "snd (extractKeypoints s r) = Inr kp"
  proof (cases "gate s now")
    case True
    then have "30 \<le> length (keypointSequence s @ [kp])"
      by (simp add: gate_def N_FRAMES_def)
    then have "length (slice_last 10 (keypointSequence s @ [kp])) = 10"
      by (intro slice_last_length) simp
    moreover have "29 \<le> length (keypointSequence s)"
      using True by (simp add: gate_def N_FRAMES_def)
    ultimately have "length (keypointSequence (fst (onResults s r now))) \<noteq> length (keypointSequence s)"
      using onResults_ok(2) [OF ok, of now] True by simp
    then show ?thesis by auto
  next
    case False
    then show ?thesis using onResults_ok(2) [OF ok, of now] by simp
  qed
  moreover have "onResults_v1 (s\<lparr>capturing := c\<rparr>) r now =
     ((fst (onResults_v1 s r now))\<lparr>capturing := c\<rparr>, snd (onResults_v1 s r now))"
    by (auto simp: onResults_v1_def Let_def split: sum.splits)
  ultimately show ?thesis
    by (simp add: onResults_capturing processVideoFrame_def processVideoFrame_v1_def)
qed

text \<open>
  The late callback of the stopped session above changes the buffer.
\<close>

theorem stale_callback_processed_witness:
  "snd (extractKeypoints (fst (run constructor stopped_session)) absent_results) = Inr (zeros 144) \<and>
   keypointSequence (fst (onResults (fst (run constructor stopped_session)) absent_results clock0))
     \<noteq> keypointSequence (fst (run constructor stopped_session))"
  using stale_callback_processed
    [where s = "fst (run constructor stopped_session)" and r = absent_results
       and now = clock0 and kp = "zeros 144"]
    extract_absent [of "fst (run constructor stopped_session)"]
  by simp

text \<open>
  C8, as stated, fails.  A session stopped after 12 callbacks still holds its 12 vectors:
  \<open>stopCapture\<close> does not touch the buffer.
\<close>

theorem stop_keeps_window:
  "length (keypointSequence (fst (run constructor abandoned_session))) = 12 \<and>
   \<not> capturing (fst (run constructor abandoned_session))"
proof -
  let ?s1 = "fst (startCapture constructor True)"
  have s1: "keypointSequence ?s1 = []" "capturing ?s1"
    by (simp_all add: startCapture_def constructor_def)
  have "length (keypointSequence ?s1) + 12 < N_FRAMES \<or>
        clock0 - lastPredictionTime ?s1 \<le> PREDICTION_THROTTLE_MS"
    by (simp add: s1 N_FRAMES_def)
  from quiet_run [OF extract_absent this]
  have q: "keypointSequence (fst (run ?s1 (replicate 12 (Results absent_results clock0)))) =
           replicate 12 (zeros 144)"
    by (simp add: s1)
  show ?thesis
    by (simp add: abandoned_session_def run_append split_beta q stopCapture_def)
qed

text \<open>
  C8, amended.  \<open>stopCapture\<close> clears the \<open>capturing\<close> flag, leaves the buffer as it
  is, and dispatches nothing.  A successful \<open>startCapture\<close> on a manager that is not
  capturing empties the buffer and sets the frame counter to zero, and every run that
  begins with such a start is the same whatever the abandoned buffer held.
\<close>

theorem window_reset_on_start:
  "keypointSequence (stopCapture s) = keypointSequence s \<and>
   \<not> capturing (stopCapture s) \<and>
   snd (step s StopCapture) = [] \<and>
   (\<not> capturing s \<longrightarrow>
      snd (startCapture s True) = Started \<and>
      capturing (fst (startCapture s True)) \<and>
      keypointSequence (fst (startCapture s True)) = [] \<and>
      frameCounter (fst (startCapture s True)) = 0 \<and>
      run (s\<lparr>keypointSequence := w\<rparr>) (StartCapture True # es) = run s (StartCapture True # es))"
  by (simp add: stopCapture_def startCapture_def)

text \<open>
  Restarting the abandoned session above.
\<close>

theorem window_reset_on_start_witness:
  "\<not> capturing (fst (run constructor abandoned_session)) \<and>
   snd (startCapture (fst (run constructor abandoned_session)) True) = Started \<and>
   keypointSequence (fst (startCapture (fst (run constructor abandoned_session)) True)) = [] \<and>
   frameCounter (fst (startCapture (fst (run constructor abandoned_session)) True)) = 0"
proof -
  have "\<not> capturing (fst (run constructor abandoned_session))"
    by (simp add: abandoned_session_def run_append split_beta stopCapture_def)
  then show ?thesis
    using window_reset_on_start [of "fst (run constructor abandoned_session)"] by simp
qed

section \<open>The effect of extractKeypoints\<close>

text \<open>
  C9, as stated, fails.  \<open>extractKeypoints\<close> writes the debug counters of the manager:
  called on a fresh manager with a pose of 33 landmarks, it leaves the pose counter at 6.
\<close>

theorem extractKeypoints_writes_counters:
  "landmarksDetected constructor = \<lparr> leftHand = 0, rightHand = 0, pose = 0 \<rparr> \<and>
   landmarksDetected (fst (extractKeypoints constructor pose_only_results)) =
     \<lparr> leftHand = 0, rightHand = 0, pose = 6 \<rparr>"
  by (simp add: extractKeypoints_def extractLandmarks_def pose_only_results_def
        POSE_INDICES_def pose_at_def constructor_def)

text \<open>
  C9, amended.  The value \<open>extractKeypoints\<close> returns (or the error it throws) depends
  on the detection result only, not on the manager; and the only field of the manager it
  writes is \<open>landmarksDetected\<close>.  That field is reset and recounted on every call: what
  it holds afterwards depends on the detection result only, namely the number of entries
  of the left hand set (0 when absent), the number of entries of the right hand set (0
  when absent, and 0 when flattening the left hand threw), and the number of the six pose
  indices at which a landmark was found.
\<close>

theorem extractKeypoints_effect:
  "snd (extractKeypoints s r) = snd (extractKeypoints s' r) \<and>
   fst (extractKeypoints s r) =
     s\<lparr>landmarksDetected := landmarksDetected (fst (extractKeypoints s r))\<rparr> \<and>
   landmarksDetected (fst (extractKeypoints s r)) =
     landmarksDetected (fst (extractKeypoints s' r)) \<and>
   landmarksDetected (fst (extractKeypoints s r)) =
     \<lparr> leftHand = (case leftHandLandmarks r of None \<Rightarrow> 0 | Some ls \<Rightarrow> length ls),
       rightHand =
         (if \<exists>ls. leftHandLandmarks r = Some ls \<and> None \<in> set ls then 0
          else case rightHandLandmarks r of None \<Rightarrow> 0 | Some ls \<Rightarrow> length ls),
       pose = length (filter (\<lambda>i. pose_at r i \<noteq> None) POSE_INDICES) \<rparr>"
  using extractKeypoints_snd [of s r s'] extractKeypoints_fst [of s r]
    extractKeypoints_counters [of s r] extractKeypoints_counters [of s' r]
  by simp

text \<open>
  With no landmark set in the detection result, counters that stood at 21, 21 and 6 are
  back at zero after the call.
\<close>

theorem extractKeypoints_effect_witness:
  "landmarksDetected (fst (extractKeypoints
      (constructor\<lparr>landmarksDetected := \<lparr> leftHand = 21, rightHand = 21, pose = 6 \<rparr>\<rparr>)
      absent_results)) = \<lparr> leftHand = 0, rightHand = 0, pose = 0 \<rparr>"
  using extractKeypoints_effect
    [of "constructor\<lparr>landmarksDetected := \<lparr> leftHand = 21, rightHand = 21, pose = 6 \<rparr>\<rparr>"
        absent_results]
  by (simp add: absent_results_def POSE_INDICES_def pose_at_def)

section \<open>The shape of the feature vector\<close>

text \<open>
  C1, as stated, fails.  For a detection result whose left hand has 20 landmarks (no right
  hand, no pose) \<open>extractKeypoints\<close> returns the 60 coordinates of that hand followed by
  63 and 18 zeros: 141 values, not 144.  A present hand set is flattened as it is; nothing
  pads it to 21 landmarks.
\<close>

theorem short_hand_vector:
  "snd (extractKeypoints constructor short_hand_results) =
     Inr (concat (replicate 20 [Num 0.5, Num 0.5, Num 0]) @ zeros 63 @ zeros 18) \<and>
   length (concat (replicate 20 [Num 0.5, Num 0.5, Num 0 :: jsnum]) @ zeros 63 @ zeros 18) = 141"
proof -
  have "pose_loop short_hand_results POSE_INDICES (0, []) = (0, zeros 18)"
    by (simp add: POSE_INDICES_def pose_at_def short_hand_results_def zeros_def eval_nat_numeral)
  then have "snd (extractKeypoints constructor short_hand_results) =
     Inr (concat (replicate 20 [Num 0.5, Num 0.5, Num 0]) @ zeros 63 @ zeros 18)"
    by (simp add: extractKeypoints_value extractLandmarks_value short_hand_results_def
          flatMap_xyz_replicate mid_landmark_def)
  moreover have "length (concat (replicate 20 [Num 0.5, Num 0.5, Num 0 :: jsnum])) = 60"
    by (simp add: length_concat sum_list_replicate)
  ultimately show ?thesis
    by (simp add: zeros_def)
qed

text \<open>
  C1, amended.  For every detection result whose hand sets hold no \<open>null\<close> entry,
  \<open>extractKeypoints\<close> returns a vector made of a left-hand part, a right-hand part and a
  pose part.  A hand part has 63 zeros when the hand set is absent or empty, and otherwise
  three values per landmark of the set, in order: its length is three times the number of
  landmarks.  The pose part always has 18 values: for each of the six pose indices the
  coordinates of that landmark, or three zeros when the pose set is absent, too short, or
  holds nothing there.  So the vector has exactly 144 values whenever each hand set is
  absent, empty, or has 21 landmarks.  The earlier copy returns the same vector whenever
  no hand set is present and empty.
\<close>

theorem keypoint_vector_shape:
  assumes "\<forall>ls. leftHandLandmarks r = Some ls \<longrightarrow> None \<notin> set ls"
    and "\<forall>ls. rightHandLandmarks r = Some ls \<longrightarrow> None \<notin> set ls"
  shows "(\<exists>l rt p.
     snd (extractKeypoints s r) = Inr (l @ rt @ p) \<and>
     length l = 3 * (case leftHandLandmarks r of
                       None \<Rightarrow> 21 | Some ls \<Rightarrow> if ls = [] then 21 else length ls) \<and>
     length rt = 3 * (case rightHandLandmarks r of
                        None \<Rightarrow> 21 | Some ls \<Rightarrow> if ls = [] then 21 else length ls) \<and>
     length p = 18 \<and>
     (leftHandLandmarks r \<in> {None, Some []} \<longrightarrow> l = zeros 63) \<and>
     (rightHandLandmarks r \<in> {None, Some []} \<longrightarrow> rt = zeros 63) \<and>
     (\<forall>ls i. leftHandLandmarks r = Some ls \<and> i < length ls \<longrightarrow>
        (\<exists>lm. ls ! i = Some lm \<and> take 3 (drop (3 * i) l) = [lm_x lm, lm_y lm, lm_z lm])) \<and>
     (\<forall>ls i. rightHandLandmarks r = Some ls \<and> i < length ls \<longrightarrow>
        (\<exists>lm. ls ! i = Some lm \<and> take 3 (drop (3 * i) rt) = [lm_x lm, lm_y lm, lm_z lm])) \<and>
     (\<forall>k<6. take 3 (drop (3 * k) p) =
        (case pose_at r (POSE_INDICES ! k) of
           Some lm \<Rightarrow> [lm_x lm, lm_y lm, lm_z lm]
         | None \<Rightarrow> zeros 3))) \<and>
   (leftHandLandmarks r \<noteq> Some [] \<and> rightHandLandmarks r \<noteq> Some [] \<longrightarrow>
      extractKeypoints_v1 r = snd (extractKeypoints s r))"
proof -
  from hand_coords [OF assms(1), of s LeftHandName] obtain l where
    l: "snd (extractLandmarks s (leftHandLandmarks r) 21 LeftHandName) = Inr l"
      "length l = 3 * (case leftHandLandmarks r of
                       None \<Rightarrow> 21 | Some ls \<Rightarrow> if ls = [] then 21 else length ls)"
      "leftHandLandmarks r \<in> {None, Some []} \<longrightarrow> l = zeros 63"
      "\<forall>ls i. leftHandLandmarks r = Some ls \<and> i < length ls \<longrightarrow>
        (\<exists>lm. ls ! i = Some lm \<and> take 3 (drop (3 * i) l) = [lm_x lm, lm_y lm, lm_z lm])"
    by blast
  from hand_coords [OF assms(2), of s RightHandName] obtain rt where
    rt: "snd (extractLandmarks s (rightHandLandmarks r) 21 RightHandName) = Inr rt"
      "length rt = 3 * (case rightHandLandmarks r of
                       None \<Rightarrow> 21 | Some ls \<Rightarrow> if ls = [] then 21 else length ls)"
      "rightHandLandmarks r \<in> {None, Some []} \<longrightarrow> rt = zeros 63"
      "\<forall>ls i. rightHandLandmarks r = Some ls \<and> i < length ls \<longrightarrow>
        (\<exists>lm. ls ! i = Some lm \<and> take 3 (drop (3 * i) rt) = [lm_x lm, lm_y lm, lm_z lm])"
    by blast
  obtain n p where np: "pose_loop r POSE_INDICES (0, []) = (n, p)"
    by (cases "pose_loop r POSE_INDICES (0, [])")
  have v: "snd (extractKeypoints s r) = Inr (l @ rt @ p)"
    by (simp add: extractKeypoints_value l(1) rt(1) np)
  have p: "length p = 18"
    "\<forall>k<6. take 3 (drop (3 * k) p) =
        (case pose_at r (POSE_INDICES ! k) of
           Some lm \<Rightarrow> [lm_x lm, lm_y lm, lm_z lm]
         | None \<Rightarrow> zeros 3)"
    using pose_coords [OF np] by blast+
  have earlier: "extractKeypoints_v1 r = snd (extractKeypoints s r)"
    if "leftHandLandmarks r \<noteq> Some [] \<and> rightHandLandmarks r \<noteq> Some []"
    using that extractKeypoints_v1_agrees [of r s] by simp
  from v l(2,3,4) rt(2,3,4) p earlier show ?thesis
    by blast
qed

text \<open>
  A full detection (33 pose landmarks, 21 per hand) gives 144 values, in both copies.
\<close>

theorem keypoint_vector_shape_witness:
  "leftHandLandmarks full_results = Some (replicate 21 (Some mid_landmark)) \<and>
   rightHandLandmarks full_results = Some (replicate 21 (Some mid_landmark)) \<and>
   None \<notin> set (replicate 21 (Some mid_landmark)) \<and>
   (\<exists>kp. snd (extractKeypoints constructor full_results) = Inr kp \<and> length kp = 144 \<and>
      extractKeypoints_v1 full_results = Inr kp)"
proof -
  have h: "\<forall>ls. leftHandLandmarks full_results = Some ls \<longrightarrow> None \<notin> set ls"
    "\<forall>ls. rightHandLandmarks full_results = Some ls \<longrightarrow> None \<notin> set ls"
    by (simp_all add: full_results_def)
  have ne: "leftHandLandmarks full_results \<noteq> Some [] \<and> rightHandLandmarks full_results \<noteq> Some []"
    by (simp add: full_results_def)
  from keypoint_vector_shape [OF h, of constructor] ne obtain l rt p where
    "snd (extractKeypoints constructor full_results) = Inr (l @ rt @ p)"
    "length l = 3 * (case leftHandLandmarks full_results of
                       None \<Rightarrow> 21 | Some ls \<Rightarrow> if ls = [] then 21 else length ls)"
    "length rt = 3 * (case rightHandLandmarks full_results of
                       None \<Rightarrow> 21 | Some ls \<Rightarrow> if ls = [] then 21 else length ls)"
    "length p = 18"
    "extractKeypoints_v1 full_results = snd (extractKeypoints constructor full_results)"
    by blast
  then have "snd (extractKeypoints constructor full_results) = Inr (l @ rt @ p) \<and>
     length (l @ rt @ p) = 144 \<and> extractKeypoints_v1 full_results = Inr (l @ rt @ p)"
    by (simp add: full_results_def)
  then show ?thesis
    by (simp add: full_results_def)
qed

end
